theory Spec2Isabelle
  imports Main "HOL-Library.Sublist" "HOL-Library.AList" "HOL-Library.Multiset"
begin

section \<open>Strings\<close>

text \<open>
  A Go string is a sequence of bytes; it is modelled as a \<^typ>\<open>string\<close> (a list of
  8-bit characters). The functions of package \<^verbatim>\<open>strings\<close> that the program
  calls are written out below with the names they have in Go.

  \<^verbatim>\<open>strings.Index\<close> returns \<^verbatim>\<open>-1\<close> when the substring does not occur; the
  model returns \<^term>\<open>None\<close> there and \<^term>\<open>Some i\<close> for the first position.
\<close>

definition HasPrefix :: "string \<Rightarrow> string \<Rightarrow> bool" where
  "HasPrefix s p = prefix p s"

definition TrimPrefix :: "string \<Rightarrow> string \<Rightarrow> string" where
  "TrimPrefix s p = (if HasPrefix s p then drop (length p) s else s)"

fun Index :: "string \<Rightarrow> string \<Rightarrow> nat option" where
  "Index [] sub = (if sub = [] then Some 0 else None)"
| "Index (c # cs) sub =
     (if prefix sub (c # cs) then Some 0 else map_option Suc (Index cs sub))"

definition Contains :: "string \<Rightarrow> string \<Rightarrow> bool" where
  "Contains s sub = (Index s sub \<noteq> None)"

fun Join :: "string list \<Rightarrow> string \<Rightarrow> string" where
  "Join [] sep = []"
| "Join [x] sep = x"
| "Join (x # y # ys) sep = x @ sep @ Join (y # ys) sep"

text \<open>
  \<^verbatim>\<open>strings.ReplaceAll(s, old, new)\<close> replaces the non-overlapping occurrences of
  \<^verbatim>\<open>old\<close>, found from left to right; after a match the scan goes on behind the
  matched text of \<^verbatim>\<open>s\<close>, so the inserted \<^verbatim>\<open>new\<close> is not looked at again by
  the same call. The program only calls it with a placeholder \<^verbatim>\<open>{{key}}\<close> as
  \<^verbatim>\<open>old\<close>, which is never empty; the library's special case for an empty
  \<^verbatim>\<open>old\<close> (an insertion between all characters) is not modelled, the function
  returns \<^verbatim>\<open>s\<close> there.
\<close>

fun ReplaceAll :: "string \<Rightarrow> string \<Rightarrow> string \<Rightarrow> string" where
  "ReplaceAll [] old new = []"
| "ReplaceAll (c # cs) old new =
     (if old \<noteq> [] \<and> prefix old (c # cs)
      then new @ ReplaceAll (drop (length old - 1) cs) old new
      else c # ReplaceAll cs old new)"

text \<open>
  White space, as \<^verbatim>\<open>unicode.IsSpace\<close> defines it, in its UTF-8 encoding: the six
  ASCII characters tab, line feed, vertical tab, form feed, carriage return and space,
  then U+0085, U+00A0, U+1680, U+2000 to U+200A, U+2028, U+2029, U+202F, U+205F and
  U+3000. Every encoding starts with a byte that is not a continuation byte and goes on
  with continuation bytes only, so that a white-space character stands at the start
  (at the end) of a string exactly when one of these byte sequences is a prefix (a
  suffix) of it, which is how Go's rune decoding sees it.
\<close>

definition white_space :: "string list" where
  "white_space =
    [[CHR 0x09], [CHR 0x0A], [CHR 0x0B], [CHR 0x0C], [CHR 0x0D], [CHR 0x20],
     [CHR 0xC2, CHR 0x85], [CHR 0xC2, CHR 0xA0],
     [CHR 0xE1, CHR 0x9A, CHR 0x80],
     [CHR 0xE2, CHR 0x80, CHR 0x80], [CHR 0xE2, CHR 0x80, CHR 0x81],
     [CHR 0xE2, CHR 0x80, CHR 0x82], [CHR 0xE2, CHR 0x80, CHR 0x83],
     [CHR 0xE2, CHR 0x80, CHR 0x84], [CHR 0xE2, CHR 0x80, CHR 0x85],
     [CHR 0xE2, CHR 0x80, CHR 0x86], [CHR 0xE2, CHR 0x80, CHR 0x87],
     [CHR 0xE2, CHR 0x80, CHR 0x88], [CHR 0xE2, CHR 0x80, CHR 0x89],
     [CHR 0xE2, CHR 0x80, CHR 0x8A],
     [CHR 0xE2, CHR 0x80, CHR 0xA8], [CHR 0xE2, CHR 0x80, CHR 0xA9],
     [CHR 0xE2, CHR 0x80, CHR 0xAF], [CHR 0xE2, CHR 0x81, CHR 0x9F],
     [CHR 0xE3, CHR 0x80, CHR 0x80]]"

definition leading_space :: "string \<Rightarrow> nat" where
  \<comment> \<open>the number of bytes of the white-space character at the start of \<open>s\<close>, 0 if none\<close>
  "leading_space s =
     (case find (\<lambda>w. prefix w s) white_space of None \<Rightarrow> 0 | Some w \<Rightarrow> length w)"

definition trailing_space_rev :: "string \<Rightarrow> nat" where
  \<comment> \<open>the same at the end of a string, which is given reversed\<close>
  "trailing_space_rev r =
     (case find (\<lambda>w. prefix (rev w) r) white_space of None \<Rightarrow> 0 | Some w \<Rightarrow> length w)"

fun TrimLeftSpace :: "string \<Rightarrow> string" where
  "TrimLeftSpace [] = []"
| "TrimLeftSpace (c # cs) =
     (if leading_space (c # cs) = 0 then c # cs
      else TrimLeftSpace (drop (leading_space (c # cs) - 1) cs))"

fun trim_right_rev :: "string \<Rightarrow> string" where
  "trim_right_rev [] = []"
| "trim_right_rev (c # cs) =
     (if trailing_space_rev (c # cs) = 0 then c # cs
      else trim_right_rev (drop (trailing_space_rev (c # cs) - 1) cs))"

definition TrimRightSpace :: "string \<Rightarrow> string" where
  "TrimRightSpace s = rev (trim_right_rev (rev s))"

definition TrimSpace :: "string \<Rightarrow> string" where
  "TrimSpace s = TrimRightSpace (TrimLeftSpace s)"

text \<open>
  \<^verbatim>\<open>strings.Fields\<close> splits a string around each run of white space; \<open>cur\<close> is
  the field being read.
\<close>

fun fields_from :: "string \<Rightarrow> string \<Rightarrow> string list" where
  "fields_from cur [] = (if cur = [] then [] else [cur])"
| "fields_from cur (c # cs) =
     (if leading_space (c # cs) = 0 then fields_from (cur @ [c]) cs
      else (if cur = [] then [] else [cur])
           @ fields_from [] (drop (leading_space (c # cs) - 1) cs))"

definition Fields :: "string \<Rightarrow> string list" where
  "Fields s = fields_from [] s"

section \<open>Template substitution (internal/template/template.go)\<close>

text \<open>
  \<^verbatim>\<open>Substitute\<close> ranges over a Go map, whose iteration order the language leaves
  open and which differs from run to run. The model takes the map as the list of its
  entries in the order in which the runtime enumerates them at this call; keys are
  distinct in a list that comes from a map. A value is given as the text that
  \<^verbatim>\<open>fmt.Sprintf("%v", value)\<close> renders for it.
\<close>

type_synonym variables = "(string \<times> string) list"

definition placeholder :: "string \<Rightarrow> string" where
  "placeholder key = ''{{'' @ key @ ''}}''"

fun substitute_loop :: "string \<Rightarrow> variables \<Rightarrow> string" where
  "substitute_loop result [] = result"
| "substitute_loop result ((key, val) # rest) =
     substitute_loop (ReplaceAll result (placeholder key) val) rest"

definition Substitute :: "string \<Rightarrow> variables \<Rightarrow> string" where
  "Substitute input variables =
     (if length variables = 0 then input else substitute_loop input variables)"

text \<open>
  Two strings \<^emph>\<open>meet\<close> when occurrences of them can share a position of some text, or
  one of them is empty: one contains the other, or a non-empty end of one is a start
  of the other. The two conditions on a mapping below say that this happens neither
  between a value and the placeholder of a key nor between the placeholders of two
  different keys.
\<close>

definition overlaps :: "string \<Rightarrow> string \<Rightarrow> bool" where
  \<comment> \<open>a non-empty end of \<open>u\<close> is a start of \<open>p\<close>\<close>
  "overlaps u p = list_ex (\<lambda>w. w \<noteq> [] \<and> prefix w p) (suffixes u)"

definition meets :: "string \<Rightarrow> string \<Rightarrow> bool" where
  "meets u p = (Contains u p \<or> Contains p u \<or> overlaps u p \<or> overlaps p u)"

definition values_apart :: "variables \<Rightarrow> bool" where
  "values_apart v =
     list_all (\<lambda>(k, val). list_all (\<lambda>(k', val'). \<not> meets val (placeholder k')) v) v"

definition keys_apart :: "variables \<Rightarrow> bool" where
  "keys_apart v =
     list_all (\<lambda>(k, val).
        list_all (\<lambda>(k', val'). k' = k \<or> \<not> meets (placeholder k) (placeholder k')) v) v"

section \<open>The request file parser (internal/file/parser.go)\<close>

text \<open>
  The two Go maps of a request, \<^verbatim>\<open>Headers\<close> and \<^verbatim>\<open>Captures\<close>, are association
  lists with distinct keys, written with \<^const>\<open>AList.update\<close> (an assignment to a
  key that is present overwrites its value). A \<^verbatim>\<open>time.Duration\<close> is a number of
  nanoseconds.
\<close>

record Assertion =
  Type :: string
  Key :: string
  Operator :: string
  Value :: string

record RequestFile =
  Name :: string
  Address :: string
  Service :: string
  Method :: string
  Protocol :: string
  Timeout :: int
  Headers :: "(string \<times> string) list"
  Body :: string
  Captures :: "(string \<times> string) list"
  Asserts :: "Assertion list"

text \<open>
  The errors of \<^verbatim>\<open>parseContent\<close>, one constructor for each \<^verbatim>\<open>fmt.Errorf\<close>:
  \<open>InvalidTimeout value err\<close> is \<^verbatim>\<open>invalid timeout duration %q: %w\<close>, with the
  text of the error of \<^verbatim>\<open>time.ParseDuration\<close>.
\<close>

datatype parse_error =
    InvalidTimeout string string
  | MissingAddress
  | MissingService
  | MissingMethod

definition squote :: string where
  "squote = [CHR 0x27]"

definition dquote :: string where
  "dquote = [CHR 0x22]"

fun parse_error_text :: "(string \<Rightarrow> string) \<Rightarrow> parse_error \<Rightarrow> string" where
  \<comment> \<open>the error's message; \<open>quote\<close> is \<^verbatim>\<open>strconv.Quote\<close>, which renders \<^verbatim>\<open>%q\<close>\<close>
  "parse_error_text quote (InvalidTimeout v err) =
     ''invalid timeout duration '' @ quote v @ '': '' @ err"
| "parse_error_text quote MissingAddress =
     ''missing required '' @ squote @ ''GRPC <address>'' @ squote @ '' line''"
| "parse_error_text quote MissingService =
     ''missing required '' @ squote @ ''Service:'' @ squote @ '' field''"
| "parse_error_text quote MissingMethod =
     ''missing required '' @ squote @ ''Method:'' @ squote @ '' field''"

text \<open>
  The loop of \<^verbatim>\<open>parseContent\<close> keeps the request under construction, the current
  section (one of the strings \<^verbatim>\<open>""\<close>, \<^verbatim>\<open>"Body"\<close>, \<^verbatim>\<open>"Captures"\<close>,
  \<^verbatim>\<open>"Asserts"\<close>) and the body lines read so far.
\<close>

record parser_state =
  req :: RequestFile
  currentSection :: string
  bodyLines :: "string list"

text \<open>
  An assertion line \<^verbatim>\<open><type> "<key>" <op> <value>\<close>. \<open>assertion_head\<close> reads
  the type, the quoted key and the operator and returns them with the rest of the
  line; it is \<^term>\<open>None\<close> where the code leaves the line out (\<^verbatim>\<open>continue\<close>, or
  fewer than four fields). \<open>assertion_value\<close> reads the value from that rest.
\<close>

definition assertion_head :: "string \<Rightarrow> (string \<times> string \<times> string \<times> string) option" where
  "assertion_head trimmed =
     (if length (Fields trimmed) \<ge> 4 then
        (case Index trimmed '' '' of
           None \<Rightarrow> None
         | Some firstSpace \<Rightarrow>
             (let aType = take firstSpace trimmed;
                  rest = TrimSpace (drop firstSpace trimmed)
              in if \<not> HasPrefix rest dquote then None
                 else
                   (let rest1 = drop 1 rest
                    in case Index rest1 dquote of
                         None \<Rightarrow> None
                       | Some endQuote \<Rightarrow>
                           (let key = take endQuote rest1;
                                rest2 = TrimSpace (drop (endQuote + 1) rest1)
                            in case Index rest2 '' '' of
                                 None \<Rightarrow> None
                               | Some opSpace \<Rightarrow>
                                   Some (aType, key, take opSpace rest2,
                                         TrimSpace (drop opSpace rest2))))))
      else None)"

definition assertion_value :: "string \<Rightarrow> string" where
  "assertion_value rest =
     (if HasPrefix rest dquote then
        (case Index (drop 1 rest) dquote of
           Some endQuote \<Rightarrow> take endQuote (drop 1 rest)
         | None \<Rightarrow> [])
      else rest)"

definition parse_assertion :: "string \<Rightarrow> Assertion option" where
  "parse_assertion trimmed =
     (case assertion_head trimmed of
        None \<Rightarrow> None
      | Some (aType, key, op, rest) \<Rightarrow>
          Some \<lparr>Type = aType, Key = key, Operator = op, Value = assertion_value rest\<rparr>)"

text \<open>
  One turn of the loop over the lines of a section. The checks come in the order of
  the source: the blank line in the header, the comment, the two section markers, the
  capture line, the assertion line, the start of the body, the body line, the address
  line, and the \<^verbatim>\<open>key: value\<close> line. Only a \<^verbatim>\<open>Timeout\<close> that
  \<^verbatim>\<open>time.ParseDuration\<close> (the parameter \<open>pd\<close>, with the error's text on the
  left) refuses ends the loop with an error.
\<close>

definition parse_line ::
  "(string \<Rightarrow> string + int) \<Rightarrow> parser_state \<Rightarrow> string \<Rightarrow> parse_error + parser_state" where
  "parse_line pd st line =
     (let trimmed = TrimSpace line in
      if currentSection st = [] \<and> trimmed = [] then Inr st
      else if HasPrefix trimmed ''#'' then
        Inr (if Name (req st) = []
             then st\<lparr>req := (req st)\<lparr>Name := TrimSpace (TrimPrefix trimmed ''#'')\<rparr>\<rparr>
             else st)
      else if trimmed = ''[Captures]'' then Inr (st\<lparr>currentSection := ''Captures''\<rparr>)
      else if trimmed = ''[Asserts]'' then Inr (st\<lparr>currentSection := ''Asserts''\<rparr>)
      else if currentSection st = ''Captures'' then
        (if trimmed = [] then Inr st
         else case Index line '':'' of
                None \<Rightarrow> Inr st
              | Some i \<Rightarrow>
                  Inr (st\<lparr>req := (req st)\<lparr>Captures :=
                         AList.update (TrimSpace (take i line)) (TrimSpace (drop (i + 1) line))
                           (Captures (req st))\<rparr>\<rparr>))
      else if currentSection st = ''Asserts'' then
        (if trimmed = [] then Inr st
         else case parse_assertion trimmed of
                None \<Rightarrow> Inr st
              | Some a \<Rightarrow> Inr (st\<lparr>req := (req st)\<lparr>Asserts := Asserts (req st) @ [a]\<rparr>\<rparr>))
      else
        (let section = (if currentSection st = [] \<and> HasPrefix trimmed ''{''
                        then ''Body'' else currentSection st)
         in if section = ''Body'' then
              Inr (st\<lparr>currentSection := section, bodyLines := bodyLines st @ [line]\<rparr>)
            else if HasPrefix line ''GRPC '' then
              Inr (st\<lparr>currentSection := section,
                      req := (req st)\<lparr>Address := TrimSpace (TrimPrefix line ''GRPC'')\<rparr>\<rparr>)
            else
              (case Index line '':'' of
                 None \<Rightarrow> Inr (st\<lparr>currentSection := section\<rparr>)
               | Some colonIdx \<Rightarrow>
                   (let key = TrimSpace (take colonIdx line);
                        val = TrimSpace (drop (colonIdx + 1) line);
                        st1 = st\<lparr>currentSection := section\<rparr>
                    in if key = ''Service'' then
                         Inr (st1\<lparr>req := (req st)\<lparr>Service := val\<rparr>\<rparr>)
                       else if key = ''Method'' then
                         Inr (st1\<lparr>req := (req st)\<lparr>Method := val\<rparr>\<rparr>)
                       else if key = ''Protocol'' then
                         Inr (st1\<lparr>req := (req st)\<lparr>Protocol := val\<rparr>\<rparr>)
                       else if key = ''Timeout'' then
                         (case pd val of
                            Inl err \<Rightarrow> Inl (InvalidTimeout val err)
                          | Inr duration \<Rightarrow>
                              Inr (st1\<lparr>req := (req st)\<lparr>Timeout := duration\<rparr>\<rparr>))
                       else
                         Inr (st1\<lparr>req := (req st)\<lparr>Headers :=
                                AList.update key val (Headers (req st))\<rparr>\<rparr>)))))"

fun parse_lines ::
  "(string \<Rightarrow> string + int) \<Rightarrow> parser_state \<Rightarrow> string list \<Rightarrow> parse_error + parser_state" where
  "parse_lines pd st [] = Inr st"
| "parse_lines pd st (line # lines) =
     (case parse_line pd st line of
        Inl err \<Rightarrow> Inl err
      | Inr st' \<Rightarrow> parse_lines pd st' lines)"

definition new_request :: RequestFile where
  "new_request =
     \<lparr>Name = [], Address = [], Service = [], Method = [], Protocol = ''grpc-web'',
      Timeout = 30 * 1000000000, Headers = [], Body = [], Captures = [], Asserts = []\<rparr>"

definition initial_state :: parser_state where
  "initial_state = \<lparr>req = new_request, currentSection = [], bodyLines = []\<rparr>"

definition finish_request :: "parser_state \<Rightarrow> parse_error + RequestFile" where
  \<comment> \<open>the code behind the loop: the body, then the required fields\<close>
  "finish_request st =
     (let r = (req st)\<lparr>Body := (if length (bodyLines st) > 0
                                then Join (bodyLines st) [CHR 0x0A] else ''{}'')\<rparr>
      in if Address r = [] then Inl MissingAddress
         else if Service r = [] then Inl MissingService
         else if Method r = [] then Inl MissingMethod
         else Inr r)"

definition parseContent ::
  "(string \<Rightarrow> string + int) \<Rightarrow> string list \<Rightarrow> nat \<Rightarrow> parse_error + RequestFile" where
  "parseContent pd lines requestNum =
     (case parse_lines pd initial_state lines of
        Inl err \<Rightarrow> Inl err
      | Inr st \<Rightarrow> finish_request st)"

text \<open>
  \<^verbatim>\<open>ParseMultiple\<close> opens the file and reads it line by line with a
  \<^verbatim>\<open>bufio.Scanner\<close>. The model takes what the operating system and the scanner
  deliver for the path: either the error of \<^verbatim>\<open>os.Open\<close>, or the lines that
  \<^verbatim>\<open>scanner.Text()\<close> returned together with the final \<^verbatim>\<open>scanner.Err()\<close>.
\<close>

datatype file_read =
    OpenError string
  | Scanned "string list" "string option"

datatype file_error =
    FailedToOpen string
  | ErrorReading string
  | NoRequestsFound
  | RequestError nat parse_error

fun split_sections ::
  "string list list \<Rightarrow> string list \<Rightarrow> string list \<Rightarrow> string list list \<times> string list" where
  \<comment> \<open>the scanning loop; \<open>current\<close> is its variable \<^verbatim>\<open>currentSection\<close>\<close>
  "split_sections sections current [] = (sections, current)"
| "split_sections sections current (line # lines) =
     (if TrimSpace line = ''---'' then
        (if length current > 0
         then split_sections (sections @ [current]) [] lines
         else split_sections sections current lines)
      else split_sections sections (current @ [line]) lines)"

fun parse_sections ::
  "(string \<Rightarrow> string + int) \<Rightarrow> nat \<Rightarrow> RequestFile list \<Rightarrow> string list list
     \<Rightarrow> file_error + RequestFile list" where
  \<comment> \<open>the loop over the sections, \<open>i\<close> counting from 0\<close>
  "parse_sections pd i requests [] = Inr requests"
| "parse_sections pd i requests (section # rest) =
     (case parseContent pd section (i + 1) of
        Inl err \<Rightarrow> Inl (RequestError (i + 1) err)
      | Inr r \<Rightarrow> parse_sections pd (i + 1) (requests @ [r]) rest)"

definition all_sections :: "string list \<Rightarrow> string list list" where
  \<comment> \<open>\<open>sections\<close> behind the scanning loop and the append of the last section\<close>
  "all_sections lines =
     (case split_sections [] [] lines of
        (sections, current) \<Rightarrow>
          if length current > 0 then sections @ [current] else sections)"

definition ParseMultiple ::
  "(string \<Rightarrow> string + int) \<Rightarrow> file_read \<Rightarrow> file_error + RequestFile list" where
  "ParseMultiple pd file =
     (case file of
        OpenError err \<Rightarrow> Inl (FailedToOpen err)
      | Scanned lines scan_err \<Rightarrow>
          (case scan_err of
             Some err \<Rightarrow> Inl (ErrorReading err)
           | None \<Rightarrow>
               if length (all_sections lines) = 0 then Inl NoRequestsFound
               else parse_sections pd 0 [] (all_sections lines)))"

definition Parse ::
  "(string \<Rightarrow> string + int) \<Rightarrow> file_read \<Rightarrow> file_error + RequestFile" where
  "Parse pd file =
     (case ParseMultiple pd file of
        Inl err \<Rightarrow> Inl err
      | Inr requests \<Rightarrow>
          if length requests = 0 then Inl NoRequestsFound else Inr (hd requests))"

text \<open>
  The segments of a document in the words of the specification: the text between the
  separator lines, so that \<open>n\<close> separators give \<open>n + 1\<close> segments, the empty ones
  between two separators and before a leading or after a trailing one included.
\<close>

definition is_separator :: "string \<Rightarrow> bool" where
  "is_separator line = (TrimSpace line = ''---'')"

fun spec_segments :: "string list \<Rightarrow> string list list" where
  "spec_segments [] = [[]]"
| "spec_segments (line # lines) =
     (if is_separator line then [] # spec_segments lines
      else (line # hd (spec_segments lines)) # tl (spec_segments lines))"

section \<open>Properties of template substitution\<close>

lemma placeholder_not_Nil: "placeholder key \<noteq> []"
  by (simp add: placeholder_def)

lemma Substitute_loop: "Substitute input variables = substitute_loop input variables"
  by (cases variables) (simp_all add: Substitute_def)

lemma ReplaceAll_self: "old \<noteq> [] \<Longrightarrow> ReplaceAll old old new = new"
  by (cases old) simp_all

lemma Index_Nil: "Index s [] = Some 0"
  by (cases s) simp_all

lemma ReplaceAll_absent: "Index s old = None \<Longrightarrow> ReplaceAll s old new = s"
  by (induction s) (auto simp: Index_Nil split: if_splits)

lemma Contains_sublist: "Contains t q \<longleftrightarrow> sublist q t"
  by (induction t) (auto simp: Contains_def sublist_Cons_right)

lemma overlaps_iff: "overlaps u p \<longleftrightarrow> (\<exists>w. w \<noteq> [] \<and> suffix w u \<and> prefix w p)"
  by (auto simp: overlaps_def list_ex_iff)

lemma ReplaceAll_Nil_old: "ReplaceAll t [] new = t"
  by (induction t) simp_all

lemma ReplaceAll_prefix:
  "old \<noteq> [] \<Longrightarrow> ReplaceAll (old @ y) old new = new @ ReplaceAll y old new"
  by (cases old) simp_all

lemma ReplaceAll_skip:
  "(\<forall>u'. u' \<noteq> [] \<and> suffix u' u \<longrightarrow> \<not> prefix old (u' @ r))
   \<Longrightarrow> ReplaceAll (u @ r) old new = u @ ReplaceAll r old new"
proof (induction u)
  case Nil
  show ?case by simp
next
  case (Cons c u)
  have "\<not> prefix old ((c # u) @ r)"
    using Cons.prems by (metis list.distinct(1) suffix_order.order_refl)
  moreover have "ReplaceAll (u @ r) old new = u @ ReplaceAll r old new"
    using Cons.prems by (intro Cons.IH) (auto simp: suffix_Cons)
  ultimately show ?case by simp
qed

lemma ReplaceAll_skip_apart:
  assumes "\<not> Contains u old" "\<not> overlaps u old"
  shows "ReplaceAll (u @ r) old new = u @ ReplaceAll r old new"
proof (rule ReplaceAll_skip, intro allI impI, elim conjE)
  fix u' assume u': "u' \<noteq> []" "suffix u' u"
  show "\<not> prefix old (u' @ r)"
  proof
    assume "prefix old (u' @ r)"
    then consider "prefix old u'" | us where "old = u' @ us"
      by (auto simp: prefix_append)
    then show False
    proof cases
      case 1
      then have "sublist old u"
        using u'(2) by (meson prefix_imp_sublist sublist_order.order_trans suffix_imp_sublist)
      then show False using assms(1) by (simp add: Contains_sublist)
    next
      case 2
      then have "prefix u' old" by simp
      then show False using assms(2) u' by (auto simp: overlaps_iff)
    qed
  qed
qed

lemma ReplaceAll_first:
  "old \<noteq> [] \<Longrightarrow> Index (a @ old @ b) old = Some (length a)
   \<Longrightarrow> ReplaceAll (a @ old @ b) old new = a @ new @ ReplaceAll b old new"
proof (induction a)
  case Nil
  then show ?case by (simp add: ReplaceAll_prefix)
next
  case (Cons c a)
  then show ?case by (auto split: if_splits)
qed

lemma ReplaceAll_prefix_back:
  "(\<forall>q'. q' \<noteq> [] \<and> suffix q' q \<longrightarrow> \<not> prefix q' new \<and> \<not> prefix new q')
   \<Longrightarrow> prefix q (ReplaceAll t old new) \<Longrightarrow> prefix q t"
proof (induction t arbitrary: q)
  case Nil
  then show ?case by simp
next
  case (Cons c cs)
  show ?case
  proof (cases "q = []")
    case True
    then show ?thesis by simp
  next
    case False
    show ?thesis
    proof (cases "old \<noteq> [] \<and> prefix old (c # cs)")
      case True
      then have "prefix q (new @ ReplaceAll (drop (length old - 1) cs) old new)"
        using Cons.prems(2) by simp
      then have "prefix q new \<or> prefix new q"
        by (auto simp: prefix_append)
      then show ?thesis using Cons.prems(1) False by blast
    next
      case nomatch: False
      then have p: "prefix q (c # ReplaceAll cs old new)"
        using Cons.prems(2) by auto
      then obtain q' where q: "q = c # q'" and q': "prefix q' (ReplaceAll cs old new)"
        using False by (cases q) auto
      have "prefix q' cs"
      proof (rule Cons.IH [OF _ q'], intro allI impI)
        fix r assume "r \<noteq> [] \<and> suffix r q'"
        then show "\<not> prefix r new \<and> \<not> prefix new r"
          using Cons.prems(1) q by (auto simp: suffix_Cons)
      qed
      then show ?thesis by (simp add: q)
    qed
  qed
qed

lemma ReplaceAll_prefix_back_apart:
  assumes "\<not> Contains q new" "\<not> overlaps q new"
  shows "prefix q (ReplaceAll t old new) \<Longrightarrow> prefix q t"
proof (rule ReplaceAll_prefix_back, intro allI impI, elim conjE)
  fix q' assume q': "q' \<noteq> []" "suffix q' q"
  have "\<not> prefix q' new"
    using assms(2) q' by (auto simp: overlaps_iff)
  moreover have "\<not> prefix new q'"
  proof
    assume "prefix new q'"
    then have "sublist new q"
      using q'(2) by (meson prefix_imp_sublist sublist_order.order_trans suffix_imp_sublist)
    then show False using assms(1) by (simp add: Contains_sublist)
  qed
  ultimately show "\<not> prefix q' new \<and> \<not> prefix new q'" ..
qed


lemma meets_sym: "meets u p = meets p u"
  by (auto simp: meets_def)

lemma not_meets_not_Nil: "\<not> meets u p \<Longrightarrow> u \<noteq> [] \<and> p \<noteq> []"
  by (auto simp: meets_def Contains_sublist)

lemma ReplaceAll_commute:
  assumes "\<not> meets p1 p2" "\<not> meets n1 p2" "\<not> meets n2 p1"
  shows "ReplaceAll (ReplaceAll t p1 n1) p2 n2 = ReplaceAll (ReplaceAll t p2 n2) p1 n1"
proof (induction "length t" arbitrary: t rule: less_induct)
  case less
  have ne: "p1 \<noteq> []" "p2 \<noteq> []"
    using assms(1) not_meets_not_Nil by blast+
  have a: "\<not> Contains p1 p2" "\<not> overlaps p1 p2" "\<not> Contains p2 p1" "\<not> overlaps p2 p1"
          "\<not> Contains n1 p2" "\<not> overlaps n1 p2" "\<not> Contains p2 n1" "\<not> overlaps p2 n1"
          "\<not> Contains n2 p1" "\<not> overlaps n2 p1" "\<not> Contains p1 n2" "\<not> overlaps p1 n2"
    using assms by (auto simp: meets_def)
  consider (first) y where "t = p1 @ y" | (second) y where "t = p2 @ y"
    | (neither) "\<not> prefix p1 t" "\<not> prefix p2 t"
    by (auto simp: prefix_def)
  then show ?case
  proof cases
    case (first y)
    have "length y < length t" using ne first by simp
    then have IH: "ReplaceAll (ReplaceAll y p1 n1) p2 n2 = ReplaceAll (ReplaceAll y p2 n2) p1 n1"
      by (rule less)
    have "ReplaceAll (ReplaceAll t p1 n1) p2 n2 = n1 @ ReplaceAll (ReplaceAll y p1 n1) p2 n2"
      by (simp add: first ReplaceAll_prefix ne ReplaceAll_skip_apart a)
    moreover have "ReplaceAll (ReplaceAll t p2 n2) p1 n1
        = n1 @ ReplaceAll (ReplaceAll y p2 n2) p1 n1"
      by (simp add: first ReplaceAll_prefix ne ReplaceAll_skip_apart a)
    ultimately show ?thesis by (simp add: IH)
  next
    case (second y)
    have "length y < length t" using ne second by simp
    then have IH: "ReplaceAll (ReplaceAll y p1 n1) p2 n2 = ReplaceAll (ReplaceAll y p2 n2) p1 n1"
      by (rule less)
    have "ReplaceAll (ReplaceAll t p1 n1) p2 n2 = n2 @ ReplaceAll (ReplaceAll y p1 n1) p2 n2"
      by (simp add: second ReplaceAll_prefix ne ReplaceAll_skip_apart a)
    moreover have "ReplaceAll (ReplaceAll t p2 n2) p1 n1
        = n2 @ ReplaceAll (ReplaceAll y p2 n2) p1 n1"
      by (simp add: second ReplaceAll_prefix ne ReplaceAll_skip_apart a)
    ultimately show ?thesis by (simp add: IH)
  next
    case neither
    show ?thesis
    proof (cases t)
      case Nil
      then show ?thesis by simp
    next
      case t: (Cons c cs)
    have IH: "ReplaceAll (ReplaceAll cs p1 n1) p2 n2 = ReplaceAll (ReplaceAll cs p2 n2) p1 n1"
      by (rule less) (simp add: t)
    have 1: "ReplaceAll t p1 n1 = c # ReplaceAll cs p1 n1"
      using neither by (simp add: t)
    have 2: "ReplaceAll t p2 n2 = c # ReplaceAll cs p2 n2"
      using neither by (simp add: t)
    have "\<not> prefix p2 (ReplaceAll t p1 n1)"
      using ReplaceAll_prefix_back_apart [OF a(7) a(8)] neither(2) by blast
    then have 3: "ReplaceAll (ReplaceAll t p1 n1) p2 n2
        = c # ReplaceAll (ReplaceAll cs p1 n1) p2 n2"
      by (simp add: 1)
    have "\<not> prefix p1 (ReplaceAll t p2 n2)"
      using ReplaceAll_prefix_back_apart [OF a(11) a(12)] neither(1) by blast
    then have 4: "ReplaceAll (ReplaceAll t p2 n2) p1 n1
        = c # ReplaceAll (ReplaceAll cs p2 n2) p1 n1"
      by (simp add: 2)
    show ?thesis by (simp add: 3 4 IH)
    qed
  qed
qed

lemma Contains_append_apart:
  assumes "\<not> Contains n q" "\<not> overlaps n q" "Contains (n @ r) q"
  shows "Contains r q"
proof -
  from assms(3) have "sublist q (n @ r)" by (simp add: Contains_sublist)
  then consider "sublist q n" | "sublist q r"
    | q1 q2 where "q = q1 @ q2" "suffix q1 n" "prefix q2 r" "q1 \<noteq> []"
    by (auto simp: sublist_append) (metis append_Nil prefix_imp_sublist)
  then show ?thesis
  proof cases
    case 1 then show ?thesis using assms(1) by (simp add: Contains_sublist)
  next
    case 2 then show ?thesis by (simp add: Contains_sublist)
  next
    case 3
    then have "overlaps n q" by (auto simp: overlaps_iff)
    then show ?thesis using assms(2) by simp
  qed
qed

lemma Contains_ReplaceAll_back:
  assumes "\<not> meets n q"
  shows "Contains (ReplaceAll t p n) q \<Longrightarrow> Contains t q"
proof (induction "length t" arbitrary: t rule: less_induct)
  case less
  have a: "\<not> Contains n q" "\<not> overlaps n q" "\<not> Contains q n" "\<not> overlaps q n"
    using assms by (auto simp: meets_def)
  show ?case
  proof (cases "p \<noteq> [] \<and> prefix p t")
    case True
    then obtain y where t: "t = p @ y" by (auto simp: prefix_def)
    then have "Contains (n @ ReplaceAll y p n) q"
      using less.prems True by (simp add: ReplaceAll_prefix)
    then have "Contains (ReplaceAll y p n) q"
      by (rule Contains_append_apart [OF a(1) a(2)])
    moreover have "length y < length t" using True t by simp
    ultimately have "Contains y q" by (rule less.hyps [rotated])
    then show ?thesis by (simp add: t Contains_sublist sublist_append)
  next
    case False
    show ?thesis
    proof (cases t)
      case Nil
      then show ?thesis using less.prems by simp
    next
      case (Cons c cs)
      then have r: "ReplaceAll t p n = c # ReplaceAll cs p n"
        using False by auto
      then have "prefix q (ReplaceAll t p n) \<or> Contains (ReplaceAll cs p n) q"
        using less.prems by (simp add: Contains_sublist sublist_Cons_right)
      then show ?thesis
      proof
        assume "prefix q (ReplaceAll t p n)"
        then have "prefix q t" by (rule ReplaceAll_prefix_back_apart [OF a(3) a(4)])
        then show ?thesis by (simp add: Contains_sublist)
      next
        assume "Contains (ReplaceAll cs p n) q"
        moreover have "length cs < length t" by (simp add: Cons)
        ultimately have "Contains cs q" by (rule less.hyps [rotated])
        then show ?thesis by (simp add: Cons Contains_sublist sublist_Cons_right)
      qed
    qed
  qed
qed

lemma not_Contains_ReplaceAll_self:
  assumes "\<not> meets n p"
  shows "\<not> Contains (ReplaceAll t p n) p"
proof (induction "length t" arbitrary: t rule: less_induct)
  case less
  have a: "\<not> Contains n p" "\<not> overlaps n p" "\<not> Contains p n" "\<not> overlaps p n"
    using assms by (auto simp: meets_def)
  have ne: "p \<noteq> []" using assms not_meets_not_Nil by blast
  show ?case
  proof (cases "prefix p t")
    case True
    then obtain y where t: "t = p @ y" by (auto simp: prefix_def)
    have "length y < length t" using ne t by simp
    then have "\<not> Contains (ReplaceAll y p n) p" by (rule less.hyps)
    then have "\<not> Contains (n @ ReplaceAll y p n) p"
      using Contains_append_apart [OF a(1) a(2)] by blast
    then show ?thesis by (simp add: t ReplaceAll_prefix ne)
  next
    case False
    show ?thesis
    proof (cases t)
      case Nil
      then show ?thesis using ne by (simp add: Contains_def)
    next
      case (Cons c cs)
      then have r: "ReplaceAll t p n = c # ReplaceAll cs p n"
        using False by auto
      have "\<not> prefix p (ReplaceAll t p n)"
        using ReplaceAll_prefix_back_apart [OF a(3) a(4)] False by blast
      moreover have "\<not> Contains (ReplaceAll cs p n) p"
        by (rule less.hyps) (simp add: Cons)
      ultimately show ?thesis
        by (simp add: r [symmetric] Contains_sublist) (simp add: r sublist_Cons_right)
    qed
  qed
qed


lemma substitute_loop_append:
  "substitute_loop s (xs @ ys) = substitute_loop (substitute_loop s xs) ys"
  by (induction xs arbitrary: s) auto

lemma substitute_loop_fold:
  "substitute_loop s v = fold (\<lambda>(k, val) r. ReplaceAll r (placeholder k) val) v s"
  by (induction v arbitrary: s) auto

lemma substitute_loop_absent_list:
  "list_all (\<lambda>(k, val). \<not> Contains t (placeholder k)) v \<Longrightarrow> substitute_loop t v = t"
  by (induction v) (auto simp: Contains_def ReplaceAll_absent)

lemma substitute_loop_clears:
  assumes "\<forall>(k, val) \<in> set v. \<forall>k' \<in> K \<union> fst ` set v. \<not> meets val (placeholder k')"
    and "\<forall>k \<in> K. \<not> Contains s (placeholder k)"
  shows "\<forall>k \<in> K \<union> fst ` set v. \<not> Contains (substitute_loop s v) (placeholder k)"
  using assms
proof (induction v arbitrary: s K)
  case Nil
  then show ?case by simp
next
  case (Cons e v)
  obtain k val where e: "e = (k, val)" by (cases e)
  let ?s = "ReplaceAll s (placeholder k) val"
  have m: "\<forall>k' \<in> insert k K \<union> fst ` set v. \<not> meets val (placeholder k')"
    using Cons.prems(1) by (auto simp: e)
  have "\<forall>k' \<in> insert k K. \<not> Contains ?s (placeholder k')"
  proof
    fix k' assume k': "k' \<in> insert k K"
    show "\<not> Contains ?s (placeholder k')"
    proof (cases "k' = k")
      case True
      then show ?thesis using not_Contains_ReplaceAll_self m by simp
    next
      case False
      then have "\<not> Contains s (placeholder k')" using k' Cons.prems(2) by simp
      moreover have "\<not> meets val (placeholder k')" using m k' by blast
      ultimately show ?thesis using Contains_ReplaceAll_back by blast
    qed
  qed
  moreover have "\<forall>(k1, val1) \<in> set v. \<forall>k' \<in> insert k K \<union> fst ` set v.
      \<not> meets val1 (placeholder k')"
    using Cons.prems(1) by (auto simp: e)
  ultimately have "\<forall>k' \<in> insert k K \<union> fst ` set v.
      \<not> Contains (substitute_loop ?s v) (placeholder k')"
    by (rule Cons.IH [rotated])
  then show ?case by (simp add: e)
qed

lemma values_apart_iff:
  "values_apart v \<longleftrightarrow> (\<forall>x \<in> set v. \<forall>y \<in> set v. \<not> meets (snd x) (placeholder (fst y)))"
  by (simp add: values_apart_def list_all_iff case_prod_unfold)

lemma keys_apart_iff:
  "keys_apart v \<longleftrightarrow>
     (\<forall>x \<in> set v. \<forall>y \<in> set v.
        fst y = fst x \<or> \<not> meets (placeholder (fst x)) (placeholder (fst y)))"
  by (simp add: keys_apart_def list_all_iff case_prod_unfold)

lemma Substitute_clears:
  assumes "values_apart v"
  shows "list_all (\<lambda>(k, val). \<not> Contains (Substitute s v) (placeholder k)) v"
proof -
  have "\<forall>k \<in> {} \<union> fst ` set v. \<not> Contains (substitute_loop s v) (placeholder k)"
    using assms by (intro substitute_loop_clears) (fastforce simp: values_apart_iff)+
  then show ?thesis by (auto simp: list_all_iff Substitute_loop)
qed

lemma Substitute_order:
  assumes "values_apart v" "keys_apart v" "distinct (map fst v)"
    and "set v' = set v" "distinct (map fst v')"
  shows "Substitute s v' = Substitute s v"
proof -
  let ?f = "\<lambda>(k, val) r. ReplaceAll r (placeholder k) val"
  have "?f x \<circ> ?f y = ?f y \<circ> ?f x" if "x \<in> set v" "y \<in> set v" for x y
  proof (cases "x = y")
    case True
    then show ?thesis by simp
  next
    case False
    obtain k a where x: "x = (k, a)" by (cases x)
    obtain k' b where y: "y = (k', b)" by (cases y)
    have "k \<noteq> k'"
      using False that assms(3) x y eq_key_imp_eq_value by fastforce
    then have "\<not> meets (placeholder k') (placeholder k)"
      using assms(2) that x y by (force simp: keys_apart_iff)
    moreover have "\<not> meets b (placeholder k)" "\<not> meets a (placeholder k')"
      using assms(1) that x y by (force simp: values_apart_iff)+
    ultimately have "ReplaceAll (ReplaceAll r (placeholder k') b) (placeholder k) a
        = ReplaceAll (ReplaceAll r (placeholder k) a) (placeholder k') b" for r
      by (rule ReplaceAll_commute)
    then show ?thesis by (auto simp: x y fun_eq_iff)
  qed
  moreover have "mset v = mset v'"
    using assms(3-5) by (metis distinct_map set_eq_iff_mset_eq_distinct)
  ultimately have "fold ?f v = fold ?f v'"
    by (rule fold_multiset_equiv)
  then show ?thesis by (simp add: Substitute_loop substitute_loop_fold)
qed

text \<open>
  C3, as amended. \<^verbatim>\<open>Substitute\<close> performs literal substring replacement by one
  replace-all pass per key, in the order in which the map is enumerated, each pass
  over the whole current result. With no entries the input is returned. The pass of a
  key \<open>k\<close> with value \<open>val\<close> leaves a text without \<^verbatim>\<open>{{k}}\<close> as it is; it turns a
  text \<open>a @ {{k}} @ b\<close>, whose first occurrence of \<^verbatim>\<open>{{k}}\<close> is the one shown,
  into \<open>a @ val @ b'\<close>, where \<open>b'\<close> is the result of the same pass over \<open>b\<close> alone;
  the passes of the remaining keys then run over that result. So a substituted value
  is re-scanned neither by the pass that inserts it nor by the passes of the keys
  enumerated earlier (the last part: the value put for \<^verbatim>\<open>{{k}}\<close> meets the passes
  of \<open>rest\<close> only), while the passes of the keys enumerated later scan it like any
  other text.
\<close>

theorem Substitute_one_pass_per_key:
  "Substitute s [] = s
   \<and> (Index s (placeholder k) = None \<longrightarrow> Substitute s ((k, val) # rest) = Substitute s rest)
   \<and> (Index (a @ placeholder k @ b) (placeholder k) = Some (length a) \<longrightarrow>
        Substitute (a @ placeholder k @ b) ((k, val) # rest)
        = Substitute (a @ val @ Substitute b [(k, val)]) rest)
   \<and> (list_all (\<lambda>(k', val'). \<not> Contains (placeholder k) (placeholder k')) earlier \<longrightarrow>
        Substitute (placeholder k) (earlier @ (k, val) # rest) = Substitute val rest)"
proof (intro conjI impI)
  show "Substitute s [] = s" by (simp add: Substitute_def)
  show "Substitute s ((k, val) # rest) = Substitute s rest"
    if "Index s (placeholder k) = None"
    using that by (simp add: Substitute_loop ReplaceAll_absent)
  show "Substitute (a @ placeholder k @ b) ((k, val) # rest)
        = Substitute (a @ val @ Substitute b [(k, val)]) rest"
    if "Index (a @ placeholder k @ b) (placeholder k) = Some (length a)"
    using that by (simp add: Substitute_loop ReplaceAll_first placeholder_not_Nil)
  show "Substitute (placeholder k) (earlier @ (k, val) # rest) = Substitute val rest"
    if "list_all (\<lambda>(k', val'). \<not> Contains (placeholder k) (placeholder k')) earlier"
    using that
    by (simp add: Substitute_loop substitute_loop_append substitute_loop_absent_list
        ReplaceAll_self placeholder_not_Nil)
qed

theorem Substitute_one_pass_per_key_witness:
  "Index ''plain text'' (placeholder ''host'') = None
   \<and> Substitute ''plain text'' [(''host'', ''localhost'')] = ''plain text''
   \<and> Index (''http://'' @ placeholder ''host'' @ ''/api/{{host}}'') (placeholder ''host'')
       = Some (length ''http://'')
   \<and> Substitute (''http://'' @ placeholder ''host'' @ ''/api/{{host}}'')
        [(''host'', ''localhost'')] = ''http://localhost/api/localhost''
   \<and> \<not> Contains (placeholder ''b'') (placeholder ''a'')
   \<and> Substitute (placeholder ''b'') ([(''a'', ''1'')] @ (''b'', ''{{a}}{{b}}'') # [])
       = ''{{a}}{{b}}''"
  using Substitute_one_pass_per_key
      [where s = "''plain text''" and k = "''host''" and val = "''localhost''" and rest = "[]"
         and a = "''http://''" and b = "''/api/{{host}}''" and earlier = "[]"]
    Substitute_one_pass_per_key
      [where s = "[]" and k = "''b''" and val = "''{{a}}{{b}}''" and rest = "[]"
         and a = "[]" and b = "[]" and earlier = "[(''a'', ''1'')]"]
  by (simp add: placeholder_def Contains_def Substitute_def)

text \<open>
  C3 as stated fails: with the entries enumerated in the order \<open>a\<close>, \<open>b\<close>, the value
  \<^verbatim>\<open>{{b}}\<close> substituted for \<^verbatim>\<open>{{a}}\<close> is scanned by the pass of \<open>b\<close> and the
  placeholder inside it is replaced.
\<close>

theorem Substitute_rescans_counterexample:
  "Substitute ''{{a}}'' [(''a'', ''{{b}}''), (''b'', ''X'')] = ''X''
   \<and> Substitute ''{{a}}'' [(''a'', ''{{b}}''), (''b'', ''X'')] \<noteq> ''{{b}}''"
  by (simp add: Substitute_def placeholder_def)

text \<open>
  C7, as amended. Let \<open>v\<close> be a mapping (an enumeration with distinct keys) in which
  no value meets the placeholder of a key, that is, no value contains such a
  placeholder, is contained in one (an empty value is), or overlaps one at either end,
  and in which the placeholders of two different keys do not meet. Then applying
  \<^verbatim>\<open>Substitute\<close> to its own result gives that result again, in whatever order the
  map is enumerated in each of the three calls: \<open>v\<close>, \<open>v1\<close> and \<open>v2\<close> are three
  enumerations of the same map.
\<close>

theorem Substitute_idempotent_when_apart:
  assumes "distinct (map fst v)" "values_apart v" "keys_apart v"
    and "set v1 = set v" "distinct (map fst v1)"
    and "set v2 = set v" "distinct (map fst v2)"
  shows "Substitute (Substitute s v) v1 = Substitute s v2"
proof -
  have "list_all (\<lambda>(k, val). \<not> Contains (Substitute s v) (placeholder k)) v1"
    using Substitute_clears [OF assms(2), of s] assms(4) by (simp add: list_all_iff)
  then have "Substitute (Substitute s v) v1 = Substitute s v"
    by (simp add: Substitute_loop substitute_loop_absent_list)
  also have "\<dots> = Substitute s v2"
    using Substitute_order [OF assms(2,3,1,6,7)] by simp
  finally show ?thesis .
qed

theorem Substitute_idempotent_when_apart_witness:
  "distinct (map fst [(''token'', ''secret-123''), (''name'', ''Bob'')])
   \<and> values_apart [(''token'', ''secret-123''), (''name'', ''Bob'')]
   \<and> keys_apart [(''token'', ''secret-123''), (''name'', ''Bob'')]
   \<and> set [(''name'', ''Bob''), (''token'', ''secret-123'')]
       = set [(''token'', ''secret-123''), (''name'', ''Bob'')]
   \<and> distinct (map fst [(''name'', ''Bob''), (''token'', ''secret-123'')])
   \<and> Substitute (Substitute ''Bearer {{token}} {{name}} {{other}}''
          [(''token'', ''secret-123''), (''name'', ''Bob'')])
        [(''name'', ''Bob''), (''token'', ''secret-123'')]
       = Substitute ''Bearer {{token}} {{name}} {{other}}''
           [(''name'', ''Bob''), (''token'', ''secret-123'')]
   \<and> Substitute ''Bearer {{token}} {{name}} {{other}}''
         [(''name'', ''Bob''), (''token'', ''secret-123'')] = ''Bearer secret-123 Bob {{other}}''"
  using Substitute_idempotent_when_apart
    [of "[(''token'', ''secret-123''), (''name'', ''Bob'')]"
        "[(''name'', ''Bob''), (''token'', ''secret-123'')]"
        "[(''name'', ''Bob''), (''token'', ''secret-123'')]"
        "''Bearer {{token}} {{name}} {{other}}''"]
  by (simp add: values_apart_def keys_apart_def meets_def overlaps_def Contains_def
      placeholder_def Substitute_def insert_commute)

text \<open>
  C7 as stated fails. The only value, \<^verbatim>\<open>{\<close>, contains no placeholder, yet the
  first application turns \<^verbatim>\<open>{{a}}{a}}\<close> into \<^verbatim>\<open>{{a}}\<close> and the second one turns
  that into \<^verbatim>\<open>{\<close>.
\<close>

theorem Substitute_not_idempotent_counterexample:
  "\<not> Contains ''{'' (placeholder ''a'')
   \<and> Substitute ''{{a}}{a}}'' [(''a'', ''{'')] = ''{{a}}''
   \<and> Substitute (Substitute ''{{a}}{a}}'' [(''a'', ''{'')]) [(''a'', ''{'')] = ''{''"
  by (simp add: Substitute_def placeholder_def Contains_def)

text \<open>
  The other conditions are needed as well. A value inside a placeholder: the value
  \<^verbatim>\<open>7\<close> of \<open>id\<close> lies inside \<^verbatim>\<open>{{user_7}}\<close>, and a second application changes
  the result of the first. An empty value joins the text on its two sides. And when the
  placeholder of one key contains that of another, the result depends on the order of
  the enumeration, although no value meets a placeholder.
\<close>

lemma Substitute_conditions_examples:
  "Substitute ''{{user_{{id}}}}'' [(''user_7'', ''Bob''), (''id'', ''7'')] = ''{{user_7}}''
   \<and> Substitute ''{{user_7}}'' [(''user_7'', ''Bob''), (''id'', ''7'')] = ''Bob''
   \<and> Substitute ''{{a{{x}}}}'' [(''a'', ''1''), (''x'', [])] = ''{{a}}''
   \<and> Substitute ''{{a}}'' [(''a'', ''1''), (''x'', [])] = ''1''
   \<and> Substitute ''{{a}}{{b}}'' [(''a'', ''1''), (''a}}{{b'', ''2'')] = ''1{{b}}''
   \<and> Substitute ''{{a}}{{b}}'' [(''a}}{{b'', ''2''), (''a'', ''1'')] = ''2''
   \<and> values_apart [(''a'', ''1''), (''a}}{{b'', ''2'')]"
  by (simp add: values_apart_def meets_def overlaps_def Contains_def
      placeholder_def Substitute_def)

end
